theory Spec2Isabelle
  imports Complex_Main "HOL-Library.Sublist"
begin

section \<open>Go strings as byte lists\<close>

text \<open>
  A Go \<^verbatim>\<open>string\<close> is a sequence of bytes and \<^verbatim>\<open>len\<close> counts bytes, so a Go string
  is a \<^typ>\<open>string\<close> (a list of 8-bit characters) here. The functions of the Go standard
  library that the repository calls are written out on bytes. Where the library decodes
  UTF-8 (white space in \<^verbatim>\<open>strings.TrimSpace\<close> and \<^verbatim>\<open>strings.Fields\<close>), the byte
  sequences that encode the white-space runes of \<^verbatim>\<open>unicode.IsSpace\<close> are listed. Lower-casing
  of text with bytes outside ASCII depends on the Unicode case tables, which are taken as a
  parameter \<open>U\<close> of the functions that need them.
\<close>

definition NL :: char where
  "NL = CHR 0x0A"

definition TAB :: char where
  "TAB = CHR 0x09"

text \<open>\<^verbatim>\<open>strings.Split(s, "\n")\<close>: never empty; the empty string gives one empty line.\<close>

fun Split :: "string \<Rightarrow> string list" where
  "Split [] = [[]]"
| "Split (c # cs) =
     (if c = NL then [] # Split cs
      else (case Split cs of [] \<Rightarrow> [[c]] | l # ls \<Rightarrow> (c # l) # ls))"

text \<open>\<^verbatim>\<open>strings.Join(lines, "\n")\<close>.\<close>

fun Join :: "string list \<Rightarrow> string" where
  "Join [] = []"
| "Join [l] = l"
| "Join (l # m # ls) = l @ NL # Join (m # ls)"

text \<open>\<^verbatim>\<open>strings.Index\<close>: the first byte offset at which \<open>sub\<close> occurs; \<open>None\<close> is Go's -1.\<close>

fun Index :: "string \<Rightarrow> string \<Rightarrow> nat option" where
  "Index [] sub = (if sub = [] then Some 0 else None)"
| "Index (c # cs) sub =
     (if prefix sub (c # cs) then Some 0 else map_option Suc (Index cs sub))"

definition Contains :: "string \<Rightarrow> string \<Rightarrow> bool" where
  "Contains s sub = (Index s sub \<noteq> None)"

text \<open>\<^verbatim>\<open>strings.ContainsAny(s, chars)\<close> for ASCII \<open>chars\<close>.\<close>

definition ContainsAny :: "string \<Rightarrow> string \<Rightarrow> bool" where
  "ContainsAny s chars = list_ex (\<lambda>c. c \<in> set chars) s"

definition HasPrefix :: "string \<Rightarrow> string \<Rightarrow> bool" where
  "HasPrefix s p = prefix p s"

text \<open>
  The encodings of the runes for which \<^verbatim>\<open>unicode.IsSpace\<close> holds: the six ASCII ones, then
  U+0085, U+00A0, U+1680, U+2000 to U+200A, U+2028, U+2029, U+202F, U+205F and U+3000.
  No encoding is a prefix of another, and no encoding beyond ASCII starts with a UTF-8
  continuation byte, so looking for one of them at a byte offset agrees with decoding.
\<close>

definition spaceRunes :: "string list" where
  "spaceRunes =
     [[CHR 0x09], [CHR 0x0A], [CHR 0x0B], [CHR 0x0C], [CHR 0x0D], [CHR 0x20],
      [CHR 0xC2, CHR 0x85], [CHR 0xC2, CHR 0xA0], [CHR 0xE1, CHR 0x9A, CHR 0x80],
      [CHR 0xE2, CHR 0x80, CHR 0x80], [CHR 0xE2, CHR 0x80, CHR 0x81],
      [CHR 0xE2, CHR 0x80, CHR 0x82], [CHR 0xE2, CHR 0x80, CHR 0x83],
      [CHR 0xE2, CHR 0x80, CHR 0x84], [CHR 0xE2, CHR 0x80, CHR 0x85],
      [CHR 0xE2, CHR 0x80, CHR 0x86], [CHR 0xE2, CHR 0x80, CHR 0x87],
      [CHR 0xE2, CHR 0x80, CHR 0x88], [CHR 0xE2, CHR 0x80, CHR 0x89],
      [CHR 0xE2, CHR 0x80, CHR 0x8A], [CHR 0xE2, CHR 0x80, CHR 0xA8],
      [CHR 0xE2, CHR 0x80, CHR 0xA9], [CHR 0xE2, CHR 0x80, CHR 0xAF],
      [CHR 0xE2, CHR 0x81, CHR 0x9F], [CHR 0xE3, CHR 0x80, CHR 0x80]]"

text \<open>The width in bytes of the rune of \<open>runes\<close> that \<open>s\<close> starts with; 0 when it starts with none.\<close>

definition runeWidth :: "string list \<Rightarrow> string \<Rightarrow> nat" where
  "runeWidth runes s = (case find (\<lambda>q. prefix q s) runes of None \<Rightarrow> 0 | Some q \<Rightarrow> length q)"

text \<open>\<^verbatim>\<open>strings.TrimLeftFunc\<close> for a set of runes given by their encodings.\<close>

function TrimLeftRunes :: "string list \<Rightarrow> string \<Rightarrow> string" where
  "TrimLeftRunes runes s =
     (if runeWidth runes s = 0 \<or> s = [] then s
      else TrimLeftRunes runes (drop (runeWidth runes s) s))"
  by pat_completeness auto
termination
  by (relation "measure (\<lambda>(runes, s). length s)") auto

text \<open>
  \<^verbatim>\<open>strings.TrimSpace\<close>: white-space runes are dropped at the front, then at the back (the
  back is read as the front of the reversed string, against the reversed encodings).
\<close>

definition TrimSpace :: "string \<Rightarrow> string" where
  "TrimSpace s = rev (TrimLeftRunes (map rev spaceRunes) (rev (TrimLeftRunes spaceRunes s)))"

text \<open>\<^verbatim>\<open>strings.Trim(s, cutset)\<close> and \<^verbatim>\<open>strings.TrimRight(s, cutset)\<close> for an ASCII cutset.\<close>

definition TrimRight :: "string \<Rightarrow> string \<Rightarrow> string" where
  "TrimRight s cutset = rev (dropWhile (\<lambda>c. c \<in> set cutset) (rev s))"

definition Trim :: "string \<Rightarrow> string \<Rightarrow> string" where
  "Trim s cutset = TrimRight (dropWhile (\<lambda>c. c \<in> set cutset) s) cutset"

text \<open>
  \<^verbatim>\<open>strings.Fields\<close>: the maximal runs of bytes between white-space runes. \<open>cur\<close> is the
  field being read.
\<close>

function FieldsFrom :: "string \<Rightarrow> string \<Rightarrow> string list" where
  "FieldsFrom cur s =
     (if s = [] then (if cur = [] then [] else [cur])
      else if runeWidth spaceRunes s = 0 then FieldsFrom (cur @ [hd s]) (tl s)
      else (if cur = [] then [] else [cur]) @ FieldsFrom [] (drop (runeWidth spaceRunes s) s))"
  by pat_completeness auto
termination
  by (relation "measure (\<lambda>(cur, s). length s)") auto

definition Fields :: "string \<Rightarrow> string list" where
  "Fields s = FieldsFrom [] s"

text \<open>
  \<^verbatim>\<open>strings.ToLower\<close>: on a string of ASCII bytes the letters A to Z are mapped to a to z;
  any other string goes through the Unicode tables \<open>U\<close>.
\<close>

definition lowerByte :: "char \<Rightarrow> char" where
  "lowerByte c =
     (case map_of (zip ''ABCDEFGHIJKLMNOPQRSTUVWXYZ'' ''abcdefghijklmnopqrstuvwxyz'') c of
        None \<Rightarrow> c | Some d \<Rightarrow> d)"

definition isASCII :: "string \<Rightarrow> bool" where
  "isASCII s = list_all (\<lambda>c. (of_char c :: nat) < 128) s"

definition ToLower :: "(string \<Rightarrow> string) \<Rightarrow> string \<Rightarrow> string" where
  "ToLower U s = (if isASCII s then map lowerByte s else U s)"

text \<open>
  \<^verbatim>\<open>unicode.IsLetter(rune(b))\<close> for a byte \<open>b\<close>: the byte is read as a Latin-1 code point.
\<close>

definition IsLetter :: "char \<Rightarrow> bool" where
  "IsLetter c =
     (let n = (of_char c :: nat) in
        (65 \<le> n \<and> n \<le> 90) \<or> (97 \<le> n \<and> n \<le> 122) \<or> n = 170 \<or> n = 181 \<or> n = 186 \<or>
        (192 \<le> n \<and> n \<le> 214) \<or> (216 \<le> n \<and> n \<le> 246) \<or> (248 \<le> n \<and> n \<le> 255))"

text \<open>\<^verbatim>\<open>%d\<close> of \<^verbatim>\<open>fmt\<close>: the decimal digits of an integer.\<close>

fun digits :: "nat \<Rightarrow> string" where
  "digits n = (if n < 10 then [''0123456789'' ! n] else digits (n div 10) @ [''0123456789'' ! (n mod 10)])"

definition fmt_d :: "int \<Rightarrow> string" where
  "fmt_d i = (if i < 0 then CHR ''-'' # digits (nat (- i)) else digits (nat i))"

section \<open>Verification pass and retry loop (package feedback)\<close>

record CompileError =
  CE_FilePath :: string
  CE_Line :: int
  CE_Column :: int
  CE_Message :: string

record VerifyResult =
  BuildOK :: bool
  VetOK :: bool
  TestOK :: bool
  Errors :: "CompileError list"
  BuildOut :: string
  VetOut :: string
  TestOutput :: string

definition VerifyResult_Success :: "VerifyResult \<Rightarrow> bool" where
  "VerifyResult_Success r = (BuildOK r \<and> VetOK r \<and> TestOK r)"

record VerifyConfig =
  WorkDir :: string
  TestCmd :: string
  CmdTimeout :: int
  TestTimeout :: int

text \<open>Durations are nanoseconds, as \<^verbatim>\<open>time.Duration\<close> is.\<close>

definition defaultCmdTimeout :: int where
  "defaultCmdTimeout = 60 * 1000000000"

definition defaultTestTimeout :: int where
  "defaultTestTimeout = 120 * 1000000000"

text \<open>
  \<^verbatim>\<open>runCommand\<close> starts a process; what it answers is a fact of the workspace at the time
  of the call. It is a parameter: from the directory, the timeout and the command line to
  the combined output and whether the error was nil.
\<close>

type_synonym runCommand = "string \<Rightarrow> int \<Rightarrow> string list \<Rightarrow> string \<times> bool"

definition goBuild :: "string list" where
  "goBuild = [''go'', ''build'', ''./...'']"

definition goVet :: "string list" where
  "goVet = [''go'', ''vet'', ''./...'']"

text \<open>
  \<^verbatim>\<open>Verify\<close>. The result comes with the command lines that were run, in order, so that a
  skipped stage can be told from one that ran. \<^verbatim>\<open>parseCompileErrors\<close> matches lines against
  a regular expression of the standard library and is a parameter. The index
  \<^verbatim>\<open>testParts[0]\<close> panics when the test command has no field; that is \<open>None\<close>.
\<close>

definition Verify ::
  "runCommand \<Rightarrow> (string \<Rightarrow> CompileError list) \<Rightarrow> VerifyConfig \<Rightarrow> (VerifyResult \<times> string list list) option"
where
  "Verify run parseCompileErrors cfg =
     (let result = \<lparr>BuildOK = False, VetOK = False, TestOK = True, Errors = [],
                     BuildOut = [], VetOut = [], TestOutput = []\<rparr>;
          cmdTimeout = (if CmdTimeout cfg = 0 then defaultCmdTimeout else CmdTimeout cfg);
          testTimeout = (if TestTimeout cfg = 0 then defaultTestTimeout else TestTimeout cfg);
          (buildOut, buildOK) = run (WorkDir cfg) cmdTimeout goBuild;
          result = result\<lparr>BuildOut := buildOut, BuildOK := buildOK\<rparr>
      in if \<not> BuildOK result
         then Some (result\<lparr>Errors := parseCompileErrors buildOut\<rparr>, [goBuild])
         else
           let (vetOut, vetOK) = run (WorkDir cfg) cmdTimeout goVet;
               result = result\<lparr>VetOut := vetOut, VetOK := vetOK\<rparr>;
               result = (if \<not> VetOK result
                         then result\<lparr>Errors := Errors result @ parseCompileErrors vetOut\<rparr>
                         else result)
           in if TestCmd cfg = [] then Some (result, [goBuild, goVet])
              else if \<not> VetOK result then Some (result\<lparr>TestOK := False\<rparr>, [goBuild, goVet])
              else
                (case Fields (TestCmd cfg) of
                   [] \<Rightarrow> None
                 | name # args \<Rightarrow>
                     let (testOut, testOK) = run (WorkDir cfg) testTimeout (name # args)
                     in Some (result\<lparr>TestOutput := testOut, TestOK := testOK\<rparr>,
                              [goBuild, goVet, name # args])))"

text \<open>
  \<^verbatim>\<open>mergeFiles\<close>: \<open>seen\<close> is the map from file names to \<^verbatim>\<open>true\<close>, held as the set of its
  keys; \<open>merged\<close> starts as a copy of \<open>existing\<close>.
\<close>

fun mergeLoop :: "string list \<Rightarrow> string set \<Rightarrow> string list \<Rightarrow> string list" where
  "mergeLoop merged seen [] = merged"
| "mergeLoop merged seen (f # fs) =
     (if f \<notin> seen then mergeLoop (merged @ [f]) (insert f seen) fs
      else mergeLoop merged seen fs)"

definition mergeFiles :: "string list \<Rightarrow> string list \<Rightarrow> string list" where
  "mergeFiles existing additional = mergeLoop existing (set existing) additional"

record FormatConfig =
  ContextLines :: int
  MaxTestOutput :: int

record LoopConfig =
  VerifyConfig :: VerifyConfig
  FormatConfig :: FormatConfig
  MaxRetries :: int

record TokenUsage =
  InputTokens :: int
  OutputTokens :: int

record LoopResult =
  Success :: bool
  Retries :: int
  FinalResult :: "VerifyResult option"
  ModifiedFiles :: "string list"
  TokenUsage :: TokenUsage

definition defaultMaxRetries :: int where
  "defaultMaxRetries = 3"

text \<open>
  What \<^verbatim>\<open>Run\<close> meets outside itself: the workspace at the \<open>k\<close>-th verification pass
  (pass 0 is the initial one), the answer of \<^verbatim>\<open>ctx.Err()\<close> at the \<open>k\<close>-th check (\<open>None\<close> is
  nil), the answer of the \<open>k\<close>-th call of the retry callback (\<open>Inl\<close> its error), and
  \<^verbatim>\<open>FormatErrors\<close>, which reads files of the workspace.
\<close>

record LoopEnv =
  commands :: "nat \<Rightarrow> runCommand"
  parseErrors :: "string \<Rightarrow> CompileError list"
  ctxErr :: "nat \<Rightarrow> string option"
  retryFn :: "nat \<Rightarrow> string \<Rightarrow> string + string list"
  FormatErrors :: "VerifyResult \<Rightarrow> string list \<Rightarrow> FormatConfig \<Rightarrow> string"

definition maxRetriesOf :: "LoopConfig \<Rightarrow> int" where
  "maxRetriesOf cfg = (if MaxRetries cfg = 0 then defaultMaxRetries else MaxRetries cfg)"

text \<open>
  The retry loop of \<^verbatim>\<open>Run\<close>, from iteration \<open>i\<close> on. The outcome is the result, the error
  (\<open>None\<close> is nil) and the number of calls of the callback so far; \<open>None\<close> is a panic of
  \<^verbatim>\<open>Verify\<close>.
\<close>

function retryLoop ::
  "LoopEnv \<Rightarrow> LoopConfig \<Rightarrow> int \<Rightarrow> int \<Rightarrow> LoopResult \<Rightarrow> VerifyResult \<Rightarrow> nat
     \<Rightarrow> (LoopResult \<times> string option \<times> nat) option"
where
  "retryLoop env cfg maxRetries i result vr calls =
     (if i < maxRetries then
        (case ctxErr env (nat i) of
           Some e \<Rightarrow>
             Some (result,
                   Some (''context canceled after '' @ fmt_d (Retries result) @ '' retries: '' @ e),
                   calls)
         | None \<Rightarrow>
             let result = result\<lparr>Retries := Retries result + 1\<rparr>;
                 errorPrompt = FormatErrors env vr (ModifiedFiles result) (FormatConfig cfg)
             in (case retryFn env calls errorPrompt of
                   Inl e \<Rightarrow>
                     Some (result,
                           Some (''retry '' @ fmt_d (Retries result) @ '' failed: '' @ e),
                           Suc calls)
                 | Inr modifiedFiles \<Rightarrow>
                     let result = result\<lparr>ModifiedFiles :=
                                            mergeFiles (ModifiedFiles result) modifiedFiles\<rparr>
                     in (case Verify (commands env (Suc (nat i))) (parseErrors env) (VerifyConfig cfg) of
                           None \<Rightarrow> None
                         | Some (vr', cmds) \<Rightarrow>
                             let result = result\<lparr>FinalResult := Some vr'\<rparr>
                             in if VerifyResult_Success vr'
                                then Some (result\<lparr>Success := True\<rparr>, None, Suc calls)
                                else retryLoop env cfg maxRetries (i + 1) result vr' (Suc calls))))
      else
        Some (result,
              Some (''max retries ('' @ fmt_d maxRetries @ '') exhausted with remaining errors''),
              calls))"
  by pat_completeness auto
termination
  by (relation "measure (\<lambda>(env, cfg, maxRetries, i, result, vr, calls). nat (maxRetries - i))") auto

definition Run ::
  "LoopEnv \<Rightarrow> LoopConfig \<Rightarrow> string list \<Rightarrow> (LoopResult \<times> string option \<times> nat) option"
where
  "Run env cfg initialFiles =
     (let maxRetries = maxRetriesOf cfg;
          result = \<lparr>Success = False, Retries = 0, FinalResult = None,
                    ModifiedFiles = initialFiles,
                    TokenUsage = \<lparr>InputTokens = 0, OutputTokens = 0\<rparr>\<rparr>
      in (case Verify (commands env 0) (parseErrors env) (VerifyConfig cfg) of
            None \<Rightarrow> None
          | Some (vr, cmds) \<Rightarrow>
              let result = result\<lparr>FinalResult := Some vr\<rparr>
              in if VerifyResult_Success vr then Some (result\<lparr>Success := True\<rparr>, None, 0)
                 else retryLoop env cfg maxRetries 0 result vr 0))"


text \<open>
  Notions the statements about \<^verbatim>\<open>Run\<close> are written with: the result of the \<open>k\<close>-th
  verification pass, whether it fails or succeeds, whether iteration \<open>k\<close> of the loop gets
  as far as re-verifying (the context is live and the callback returns a list), and
  whether \<open>ls\<close> are lists the callback returned at its calls \<open>from\<close>, \<open>from + 1\<close>, ...
\<close>

definition verifyAt :: "LoopEnv \<Rightarrow> LoopConfig \<Rightarrow> nat \<Rightarrow> VerifyResult option" where
  "verifyAt env cfg k = map_option fst (Verify (commands env k) (parseErrors env) (VerifyConfig cfg))"

definition failsAt :: "LoopEnv \<Rightarrow> LoopConfig \<Rightarrow> nat \<Rightarrow> bool" where
  "failsAt env cfg k =
     (case verifyAt env cfg k of None \<Rightarrow> False | Some vr \<Rightarrow> \<not> VerifyResult_Success vr)"

definition succeedsAt :: "LoopEnv \<Rightarrow> LoopConfig \<Rightarrow> nat \<Rightarrow> bool" where
  "succeedsAt env cfg k =
     (case verifyAt env cfg k of None \<Rightarrow> False | Some vr \<Rightarrow> VerifyResult_Success vr)"

definition retryRuns :: "LoopEnv \<Rightarrow> nat \<Rightarrow> bool" where
  "retryRuns env k = (ctxErr env k = None \<and> (\<forall>p. \<exists>fs. retryFn env k p = Inr fs))"



text \<open>
  The workspace of the package's loop tests: \<^verbatim>\<open>go build\<close> fails in the first \<open>n\<close>
  verification passes, every other command succeeds, no test command is configured, and
  the callback reports the files it rewrote.
\<close>

definition scenarioEnv :: "nat \<Rightarrow> LoopEnv" where
  "scenarioEnv n =
     \<lparr>commands = (\<lambda>k dir timeout argv.
         if k < n \<and> argv = goBuild then (''./main.go:4:9: syntax error'', False) else ([], True)),
      parseErrors = (\<lambda>out. []),
      ctxErr = (\<lambda>k. None),
      retryFn = (\<lambda>k prompt. Inr [''main.go'', ''util.go'', ''main.go'']),
      FormatErrors = (\<lambda>vr files fc. [])\<rparr>"

definition scenarioCfg :: "int \<Rightarrow> LoopConfig" where
  "scenarioCfg m =
     \<lparr>VerifyConfig = \<lparr>WorkDir = ''.'', TestCmd = [], CmdTimeout = 0, TestTimeout = 0\<rparr>,
      FormatConfig = \<lparr>ContextLines = 0, MaxTestOutput = 0\<rparr>,
      MaxRetries = m\<rparr>"

section \<open>Edit-format parser (package editformat)\<close>

record Edit =
  Edit_FilePath :: string
  OldContent :: string
  NewContent :: string
  IsCreate :: bool

record ParseError =
  Position :: int
  RawText :: string
  Message :: string

datatype NoEditsFoundError = NoEditsFoundError

record ParseResult =
  Edits :: "Edit list"
  ParseErrors :: "ParseError list"
  ReasoningText :: string
  BlocksFound :: int
  BlocksParsed :: int

definition markerSearch :: string where
  "markerSearch = ''<<<<<<< SEARCH''"

definition markerDivider :: string where
  "markerDivider = ''=======''"

definition markerReplace :: string where
  "markerReplace = ''>>>>>>> REPLACE''"

text \<open>The backtick, and the opening of a markdown fence.\<close>

definition backtick :: char where
  "backtick = CHR 0x60"

definition fence :: string where
  "fence = [backtick, backtick, backtick]"

definition isMarker :: "string \<Rightarrow> string \<Rightarrow> bool" where
  "isMarker line marker = (TrimSpace line = marker)"

definition isMarkdownFence :: "string \<Rightarrow> bool" where
  "isMarkdownFence line = HasPrefix (TrimSpace line) fence"

definition extractFilePath :: "string \<Rightarrow> string" where
  "extractFilePath line =
     (let s = TrimSpace line in
      if isMarkdownFence s then []
      else
        let s = Trim s [backtick];
            s = TrimSpace s
        in if ContainsAny s [CHR '' '', TAB] \<and> \<not> Contains s ''/'' then [] else s)"

text \<open>\<^verbatim>\<open>lines[start:end]\<close> joined, after \<open>end\<close> is cut down to the number of lines.\<close>

definition reconstructBlock :: "string list \<Rightarrow> nat \<Rightarrow> nat \<Rightarrow> string" where
  "reconstructBlock lines start end =
     (let end = (if end > length lines then length lines else end)
      in Join (take (end - start) (drop start lines)))"

definition appendReasoning :: "string \<Rightarrow> string \<Rightarrow> string" where
  "appendReasoning b line = (if length b > 0 then b @ [NL] else b) @ line"

text \<open>
  The two inner loops of \<^verbatim>\<open>Parse\<close> are one loop with two markers: it reads the lines
  that are left until one is the marker, and builds the text of the lines before it. It
  returns whether the marker was found, how many lines it went over (the marker
  included), and the text.
\<close>

fun collectUntil :: "string \<Rightarrow> string list \<Rightarrow> string \<Rightarrow> bool \<times> nat \<times> string" where
  "collectUntil marker [] text = (False, 0, text)"
| "collectUntil marker (line # rest) text =
     (if isMarker line marker then (True, 1, text)
      else (case collectUntil marker rest ((if length text > 0 then text @ [NL] else text) @ line) of
              (found, n, t) \<Rightarrow> (found, Suc n, t)))"

text \<open>
  The body of the outer loop from the line after the \<^verbatim>\<open>SEARCH\<close> marker at \<open>searchIdx\<close>:
  one block. It returns the number of lines it went over after the marker and the
  result with the block counted.
\<close>

definition parseBlock :: "string list \<Rightarrow> nat \<Rightarrow> string \<Rightarrow> ParseResult \<Rightarrow> nat \<times> ParseResult" where
  "parseBlock lines searchIdx filePath result0 =
     (let i0 = searchIdx + 1;
          result = result0\<lparr>BlocksFound := BlocksFound result0 + 1\<rparr>;
          (foundDivider, n, searchText) = collectUntil markerDivider (drop i0 lines) [];
          i = i0 + n
      in if \<not> foundDivider
         then (i - i0,
               result\<lparr>ParseErrors := ParseErrors result @
                 [\<lparr>Position = int searchIdx + 1, RawText = reconstructBlock lines searchIdx i,
                   Message = ''unclosed block: missing ======= divider''\<rparr>]\<rparr>)
         else
           let (foundReplace, n, replaceText) = collectUntil markerReplace (drop i lines) [];
               i = i + n
           in if \<not> foundReplace
              then (i - i0,
                    result\<lparr>ParseErrors := ParseErrors result @
                      [\<lparr>Position = int searchIdx + 1, RawText = reconstructBlock lines searchIdx i,
                        Message = ''unclosed block: missing >>>>>>> REPLACE marker''\<rparr>]\<rparr>)
              else
                let i = (if i < length lines \<and> isMarkdownFence (lines ! i) then i + 1 else i)
                in if filePath = []
                   then (i - i0,
                         result\<lparr>ParseErrors := ParseErrors result @
                           [\<lparr>Position = int searchIdx + 1,
                             RawText = reconstructBlock lines searchIdx i,
                             Message = ''missing file path before <<<<<<< SEARCH marker''\<rparr>]\<rparr>)
                   else
                     let old = searchText;
                         new = replaceText;
                         old = (if old \<noteq> [] then old @ [NL] else old);
                         new = (if new \<noteq> [] then new @ [NL] else new);
                         edit = \<lparr>Edit_FilePath = filePath, OldContent = old, NewContent = new,
                                 IsCreate = False\<rparr>
                     in (i - i0,
                         result\<lparr>Edits := Edits result @ [edit],
                                BlocksParsed := BlocksParsed result + 1\<rparr>))"

text \<open>The outer loop of \<^verbatim>\<open>Parse\<close>, from line \<open>i\<close> on, with the reasoning text built so far.\<close>

function parseLoop :: "string list \<Rightarrow> nat \<Rightarrow> ParseResult \<Rightarrow> string \<Rightarrow> ParseResult \<times> string" where
  "parseLoop lines i result reasoning =
     (if i < length lines then
        (case find (\<lambda>j. isMarker (lines ! j) markerSearch) [i..<length lines] of
           None \<Rightarrow> (result, foldl appendReasoning reasoning (drop i lines))
         | Some searchIdx \<Rightarrow>
             let filePathLine = int searchIdx - 1;
                 reasoning = foldl appendReasoning reasoning
                               (take (nat (filePathLine - int i)) (drop i lines));
                 filePath = (if filePathLine \<ge> 0 then extractFilePath (lines ! nat filePathLine)
                             else []);
                 (n, result) = parseBlock lines searchIdx filePath result
             in parseLoop lines (searchIdx + 1 + n) result reasoning)
      else (result, reasoning))"
  by pat_completeness auto
termination
  by (relation "measure (\<lambda>(lines, i, result, reasoning). length lines - i)")
     (auto simp: find_Some_iff)

definition Parse :: "string \<Rightarrow> NoEditsFoundError + ParseResult" where
  "Parse response =
     (if TrimSpace response = [] then Inl NoEditsFoundError
      else
        let result = \<lparr>Edits = [], ParseErrors = [], ReasoningText = [], BlocksFound = 0,
                      BlocksParsed = 0\<rparr>;
            lines = Split response;
            (result, reasoning) = parseLoop lines 0 result [];
            result = result\<lparr>ReasoningText := TrimSpace reasoning\<rparr>
        in if BlocksFound result = 0 then Inl NoEditsFoundError else Inr result)"

text \<open>
  A response with some reasoning, a well-formed block for \<^verbatim>\<open>config.yaml\<close> and a block that
  is never closed.
\<close>

definition sampleResponse :: string where
  "sampleResponse =
     Join [''The timeout is too short.'', ''config.yaml'', ''<<<<<<< SEARCH'', ''timeout: 30'',
           ''======='', ''timeout: 60'', ''>>>>>>> REPLACE'', ''and the retries'', ''config.yaml'',
           ''<<<<<<< SEARCH'', ''retries: 3'']"

text \<open>The counters of a result agree with its lists.\<close>

definition counted :: "ParseResult \<Rightarrow> bool" where
  "counted r = (BlocksFound r = BlocksParsed r + int (length (ParseErrors r)) \<and>
                BlocksParsed r = int (length (Edits r)))"

section \<open>Three-stage matcher (package editor)\<close>

datatype MatchStage = StageExact | StageWhitespaceNormalized | StageFuzzy | StageNone

text \<open>
  Byte offsets are natural numbers; similarity scores and the threshold are \<^verbatim>\<open>float64\<close> in
  the source and real numbers here.
\<close>

record matchResult =
  start :: nat
  end' :: nat
  stage :: MatchStage
  similarity' :: real

definition defaultFuzzyThreshold :: real where
  "defaultFuzzyThreshold = 4 / 5"

definition exactMatch :: "string \<Rightarrow> string \<Rightarrow> matchResult option" where
  "exactMatch content search =
     (case Index content search of
        None \<Rightarrow> None
      | Some idx \<Rightarrow>
          Some \<lparr>start = idx, end' = idx + length search, stage = StageExact, similarity' = 1\<rparr>)"

text \<open>
  \<^verbatim>\<open>collapseSpaces\<close>, on text that is valid UTF-8 (the source walks runes, and a byte that
  is not part of a rune would come out as U+FFFD). \<open>inSpace\<close> is the loop's flag.
\<close>

fun collapseFrom :: "bool \<Rightarrow> string \<Rightarrow> string" where
  "collapseFrom inSpace [] = []"
| "collapseFrom inSpace (r # rs) =
     (if r = CHR '' '' \<or> r = TAB
      then (if \<not> inSpace then CHR '' '' # collapseFrom True rs else collapseFrom True rs)
      else r # collapseFrom False rs)"

definition collapseSpaces :: "string \<Rightarrow> string" where
  "collapseSpaces s = collapseFrom False s"

definition normalizeLines :: "string \<Rightarrow> string list" where
  "normalizeLines s =
     (let lines = Split s;
          lines = (if length lines > 0 \<and> last lines = [] then butlast lines else lines)
      in map (\<lambda>line. collapseSpaces (TrimSpace line)) lines)"

text \<open>\<^verbatim>\<open>byteOffsetOfLine\<close>: the loop over \<open>i < idx\<close>; its callers keep \<open>idx\<close> within the lines.\<close>

definition byteOffsetOfLine :: "string list \<Rightarrow> nat \<Rightarrow> nat" where
  "byteOffsetOfLine lines idx = foldl (\<lambda>offset i. offset + (length (lines ! i) + 1)) 0 [0..<idx]"

text \<open>
  \<^verbatim>\<open>whitespaceNormalizedMatch\<close>: the first window of the normalized content lines that
  equals the normalized search lines, line by line. The loop bound
  \<^verbatim>\<open>len(normContentLines)-searchLen\<close> is negative when the search has more lines, and the
  loop does not run.
\<close>

definition whitespaceNormalizedMatch :: "string \<Rightarrow> string \<Rightarrow> matchResult option" where
  "whitespaceNormalizedMatch content search =
     (let normSearchLines = normalizeLines search in
      if length normSearchLines = 0 then None
      else
        let contentLines = Split content;
            normContentLines = map (\<lambda>line. collapseSpaces (TrimSpace line)) contentLines;
            searchLen = length normSearchLines
        in if length normContentLines < searchLen then None
           else
             (case find (\<lambda>i. list_all (\<lambda>j. normContentLines ! (i + j) = normSearchLines ! j)
                                 [0..<searchLen])
                        [0..<Suc (length normContentLines - searchLen)] of
                None \<Rightarrow> None
              | Some i \<Rightarrow>
                  Some \<lparr>start = byteOffsetOfLine contentLines i,
                        end' = byteOffsetOfLine contentLines (i + searchLen),
                        stage = StageWhitespaceNormalized, similarity' = 1\<rparr>))"

text \<open>
  \<^verbatim>\<open>similarity\<close>. The distance comes from the library \<^verbatim>\<open>diffmatchpatch\<close>
  (\<^verbatim>\<open>DiffLevenshtein\<close> of \<^verbatim>\<open>DiffMain\<close>), which is not part of the repository: it is the
  parameter \<open>lev\<close>.
\<close>

definition similarity :: "(string \<Rightarrow> string \<Rightarrow> nat) \<Rightarrow> string \<Rightarrow> string \<Rightarrow> real" where
  "similarity lev a b =
     (if a = b then 1
      else if a = [] \<or> b = [] then 0
      else 1 - real (lev a b) / real (if length b > length a then length b else length a))"

text \<open>One round of the loop of \<^verbatim>\<open>fuzzyMatch\<close>, for the window that starts at line \<open>i\<close>.\<close>

definition fuzzyStep ::
  "(string \<Rightarrow> string \<Rightarrow> nat) \<Rightarrow> string list \<Rightarrow> string \<Rightarrow> nat \<Rightarrow> real
     \<Rightarrow> matchResult option \<Rightarrow> nat \<Rightarrow> matchResult option"
where
  "fuzzyStep lev contentLines search searchLen threshold best i =
     (let candidate = Join (take searchLen (drop i contentLines));
          sim = similarity lev candidate search
      in if sim \<ge> threshold \<and> (case best of None \<Rightarrow> True | Some b \<Rightarrow> sim > similarity' b)
         then
           let start = byteOffsetOfLine contentLines i
           in Some \<lparr>start = start, end' = start + length candidate, stage = StageFuzzy,
                    similarity' = sim\<rparr>
         else best)"

definition fuzzyMatch ::
  "(string \<Rightarrow> string \<Rightarrow> nat) \<Rightarrow> string \<Rightarrow> string \<Rightarrow> real \<Rightarrow> matchResult option"
where
  "fuzzyMatch lev content search threshold =
     (if search = [] \<or> content = [] then None
      else
        let contentLines = Split content;
            searchLines = Split search;
            searchLen = length searchLines
        in if searchLen > length contentLines
           then
             (let sim = similarity lev content search
              in if sim \<ge> threshold
                 then Some \<lparr>start = 0, end' = length content, stage = StageFuzzy, similarity' = sim\<rparr>
                 else None)
           else
             foldl (fuzzyStep lev contentLines search searchLen threshold) None
               [0..<Suc (length contentLines - searchLen)])"

definition findMatch ::
  "(string \<Rightarrow> string \<Rightarrow> nat) \<Rightarrow> string \<Rightarrow> string \<Rightarrow> real \<Rightarrow> matchResult option"
where
  "findMatch lev content search fuzzyThreshold =
     (case exactMatch content search of
        Some m \<Rightarrow> Some m
      | None \<Rightarrow>
          (case whitespaceNormalizedMatch content search of
             Some m \<Rightarrow> Some m
           | None \<Rightarrow> fuzzyMatch lev content search fuzzyThreshold))"




record TextEditor =
  FuzzyThreshold :: real

definition fuzzyThreshold :: "TextEditor \<Rightarrow> real" where
  "fuzzyThreshold e = (if FuzzyThreshold e > 0 then FuzzyThreshold e else defaultFuzzyThreshold)"

text \<open>
  A distance to run examples with (the statements hold for every distance): the number
  of positions at which two texts differ, the surplus of the longer one counted in.
\<close>

definition mismatches :: "string \<Rightarrow> string \<Rightarrow> nat" where
  "mismatches a b =
     length (filter (\<lambda>(x, y). x \<noteq> y) (zip a b)) + (length a - length b) + (length b - length a)"

section \<open>Atomic write (package editor)\<close>

text \<open>
  The file system is a map from paths to files; a file is its bytes and its permission
  bits. \<^verbatim>\<open>atomicWrite\<close> calls the operating system six times (\<^verbatim>\<open>Stat\<close>, \<^verbatim>\<open>CreateTemp\<close>,
  \<^verbatim>\<open>Write\<close>, \<^verbatim>\<open>Close\<close>, \<^verbatim>\<open>Chmod\<close>, \<^verbatim>\<open>Rename\<close>) and tests the error of each; which of
  the calls fail is not up to the program, so it is a parameter, together with the name
  \<^verbatim>\<open>CreateTemp\<close> picks, the number of bytes a failing write leaves behind and the text of
  the system's error. \<^verbatim>\<open>os.Remove\<close> of the temporary file is called with its error
  dropped; it takes the file out of the map.
\<close>

record fileNode =
  bytes :: string
  mode :: nat

type_synonym filesystem = "string \<rightharpoonup> fileNode"

record os_env =
  statFails :: bool
  tempName :: string
  createTempFails :: bool
  writeFails :: bool
  written :: nat
  closeFails :: bool
  chmodFails :: bool
  renameFails :: bool
  osError :: string

definition os_Stat :: "os_env \<Rightarrow> filesystem \<Rightarrow> string \<Rightarrow> fileNode option" where
  "os_Stat env fs path = (if statFails env then None else fs path)"

text \<open>\<^verbatim>\<open>os.CreateTemp\<close> creates a file that did not exist (\<^verbatim>\<open>O_EXCL\<close>), empty, with mode 0600.\<close>

definition os_CreateTemp :: "os_env \<Rightarrow> filesystem \<Rightarrow> string + (string \<times> filesystem)" where
  "os_CreateTemp env fs =
     (if createTempFails env \<or> fs (tempName env) \<noteq> None then Inl (osError env)
      else Inr (tempName env, fs(tempName env \<mapsto> \<lparr>bytes = [], mode = 384\<rparr>)))"

definition os_Write :: "os_env \<Rightarrow> filesystem \<Rightarrow> string \<Rightarrow> string \<Rightarrow> string option \<times> filesystem" where
  "os_Write env fs name data =
     (case fs name of
        None \<Rightarrow> (Some (osError env), fs)
      | Some f \<Rightarrow>
          if writeFails env then (Some (osError env), fs(name \<mapsto> f\<lparr>bytes := take (written env) data\<rparr>))
          else (None, fs(name \<mapsto> f\<lparr>bytes := data\<rparr>)))"

definition os_Close :: "os_env \<Rightarrow> string option" where
  "os_Close env = (if closeFails env then Some (osError env) else None)"

definition os_Chmod :: "os_env \<Rightarrow> filesystem \<Rightarrow> string \<Rightarrow> nat \<Rightarrow> string option \<times> filesystem" where
  "os_Chmod env fs name perm =
     (case fs name of
        None \<Rightarrow> (Some (osError env), fs)
      | Some f \<Rightarrow>
          if chmodFails env then (Some (osError env), fs)
          else (None, fs(name \<mapsto> f\<lparr>mode := perm\<rparr>)))"

text \<open>\<^verbatim>\<open>os.Rename\<close> replaces the target in one step; renaming a file to itself changes nothing.\<close>

definition os_Rename :: "os_env \<Rightarrow> filesystem \<Rightarrow> string \<Rightarrow> string \<Rightarrow> string option \<times> filesystem" where
  "os_Rename env fs old new =
     (case fs old of
        None \<Rightarrow> (Some (osError env), fs)
      | Some f \<Rightarrow>
          if renameFails env then (Some (osError env), fs)
          else if old = new then (None, fs)
          else (None, (fs(new \<mapsto> f))(old := None)))"

definition os_Remove :: "filesystem \<Rightarrow> string \<Rightarrow> filesystem" where
  "os_Remove fs name = fs(name := None)"

text \<open>\<^verbatim>\<open>atomicWrite\<close>: the error (\<open>None\<close> is nil) and the file system after the call.\<close>

definition atomicWrite :: "os_env \<Rightarrow> filesystem \<Rightarrow> string \<Rightarrow> string \<Rightarrow> string option \<times> filesystem" where
  "atomicWrite env fs path data =
     (let perm = (case os_Stat env fs path of None \<Rightarrow> 420 | Some info \<Rightarrow> mode info)
      in case os_CreateTemp env fs of
           Inl err \<Rightarrow> (Some (''creating temp file: '' @ err), fs)
         | Inr (tmpPath, fs1) \<Rightarrow>
             (case os_Write env fs1 tmpPath data of
                (Some err, fs2) \<Rightarrow> (Some (''writing temp file: '' @ err), os_Remove fs2 tmpPath)
              | (None, fs2) \<Rightarrow>
                  (case os_Close env of
                     Some err \<Rightarrow> (Some (''closing temp file: '' @ err), os_Remove fs2 tmpPath)
                   | None \<Rightarrow>
                       (case os_Chmod env fs2 tmpPath perm of
                          (Some err, fs3) \<Rightarrow>
                            (Some (''setting permissions: '' @ err), os_Remove fs3 tmpPath)
                        | (None, fs3) \<Rightarrow>
                            (case os_Rename env fs3 tmpPath path of
                               (Some err, fs4) \<Rightarrow>
                                 (Some (''renaming temp file: '' @ err), os_Remove fs4 tmpPath)
                             | (None, fs4) \<Rightarrow> (None, fs4))))))"

text \<open>A workspace with one file, and a system on which writing the temporary file fails.\<close>

definition configFs :: filesystem where
  "configFs = [''config.yaml'' \<mapsto> \<lparr>bytes = ''timeout: 30'', mode = 420\<rparr>]"

definition diskFull :: os_env where
  "diskFull = \<lparr>statFails = False, tempName = ''.go-coder-1.tmp'', createTempFails = False,
               writeFails = True, written = 4, closeFails = False, chmodFails = False,
               renameFails = False, osError = ''no space left on device''\<rparr>"

section \<open>Reference graph (package repomap)\<close>
























section \<open>Commit messages (package git)\<close>

definition maxSubjectLength :: nat where
  "maxSubjectLength = 72"

definition coAuthorTrailer :: string where
  "coAuthorTrailer = ''Co-Authored-By: go-coder <noreply@go-coder>''"

definition commitTypes :: "(string list \<times> string) list" where
  "commitTypes =
     [([''fix'', ''bug'', ''repair'', ''patch'', ''resolve'', ''correct''], ''fix''),
      ([''refactor'', ''restructure'', ''reorganize'', ''clean up'', ''simplify''], ''refactor''),
      ([''test'', ''spec'', ''coverage''], ''test''),
      ([''doc'', ''comment'', ''readme'', ''documentation''], ''docs''),
      ([''style'', ''format'', ''lint'', ''whitespace''], ''style''),
      ([''perf'', ''performance'', ''optimize'', ''speed''], ''perf''),
      ([''ci'', ''pipeline'', ''workflow'', ''github action''], ''ci''),
      ([''build'', ''dependency'', ''deps'', ''module''], ''build''),
      ([''chore'', ''cleanup'', ''maintain''], ''chore''),
      ([''add'', ''create'', ''implement'', ''new'', ''feature'', ''introduce''], ''feat'')]"

text \<open>
  The loop of \<^verbatim>\<open>containsWord\<close>, from offset \<open>idx\<close>. The slice \<^verbatim>\<open>text[idx:]\<close> panics when
  \<open>idx\<close> is beyond the text: that is \<open>None\<close>.
\<close>

function containsWordFrom :: "string \<Rightarrow> string \<Rightarrow> nat \<Rightarrow> bool option" where
  "containsWordFrom text keyword idx =
     (if length text < idx then None
      else
        (case Index (drop idx text) keyword of
           None \<Rightarrow> Some False
         | Some i \<Rightarrow>
             let start = idx + i;
                 end = start + length keyword;
                 leftOK = (start = 0 \<or> \<not> IsLetter (text ! (start - 1)));
                 rightOK = (end = length text \<or> \<not> IsLetter (text ! end))
             in if leftOK \<and> rightOK then Some True
                else containsWordFrom text keyword (start + 1)))"
  by pat_completeness auto
termination
  by (relation "measure (\<lambda>(text, keyword, idx). Suc (length text) - idx)") auto

definition containsWord :: "string \<Rightarrow> string \<Rightarrow> bool option" where
  "containsWord text keyword =
     (if Contains keyword '' '' then Some (Contains text keyword)
      else containsWordFrom text keyword 0)"

text \<open>The two loops of \<^verbatim>\<open>inferCommitType\<close>: over the keywords of a row, and over the rows.\<close>

fun anyKeyword :: "string \<Rightarrow> string list \<Rightarrow> bool option" where
  "anyKeyword lower [] = Some False"
| "anyKeyword lower (kw # kws) =
     (case containsWord lower kw of
        None \<Rightarrow> None
      | Some True \<Rightarrow> Some True
      | Some False \<Rightarrow> anyKeyword lower kws)"

fun firstType :: "string \<Rightarrow> (string list \<times> string) list \<Rightarrow> string option" where
  "firstType lower [] = Some ''feat''"
| "firstType lower ((keywords, pre) # cts) =
     (case anyKeyword lower keywords of
        None \<Rightarrow> None
      | Some True \<Rightarrow> Some pre
      | Some False \<Rightarrow> firstType lower cts)"

definition inferCommitType :: "(string \<Rightarrow> string) \<Rightarrow> string \<Rightarrow> string option" where
  "inferCommitType U prompt = firstType (ToLower U prompt) commitTypes"

text \<open>\<^verbatim>\<open>buildSubject\<close>. The slice \<^verbatim>\<open>summary[:1]\<close> panics on the empty string: that is \<open>None\<close>.\<close>

definition buildSubject :: "(string \<Rightarrow> string) \<Rightarrow> string \<Rightarrow> string \<Rightarrow> string option" where
  "buildSubject U commitType prompt =
     (let summary = TrimSpace prompt in
      if length summary < 1 then None
      else
        let summary = ToLower U (take 1 summary) @ drop 1 summary;
            summary = TrimRight summary ''.'';
            subject = commitType @ '': '' @ summary;
            subject = (if length subject > maxSubjectLength
                       then take (maxSubjectLength - 3) subject @ ''...'' else subject)
        in Some subject)"

definition buildBody :: "string list \<Rightarrow> string" where
  "buildBody modifiedFiles =
     (if length modifiedFiles = 0 then []
      else ''Modified files:'' @ [NL] @ concat (map (\<lambda>f. ''- '' @ f @ [NL]) modifiedFiles))"

definition GenerateMessage :: "(string \<Rightarrow> string) \<Rightarrow> string \<Rightarrow> string list \<Rightarrow> string option" where
  "GenerateMessage U prompt modifiedFiles =
     (case inferCommitType U prompt of
        None \<Rightarrow> None
      | Some commitType \<Rightarrow>
          (case buildSubject U commitType prompt of
             None \<Rightarrow> None
           | Some subject \<Rightarrow>
               let body = buildBody modifiedFiles;
                   msg = subject;
                   msg = (if body \<noteq> [] then msg @ [NL, NL] @ body else msg);
                   msg = msg @ [NL, NL] @ coAuthorTrailer
               in Some msg))"

text \<open>
  For the statements about commit messages. A text is white space only when it is made of
  the encodings of white-space runes. A keyword occurs in a text at an offset; the
  occurrence is a whole word when no letter stands right before it or right after it.
  \<open>keywordMatches\<close> is the test the source makes for a keyword: whole word for a keyword
  without a space, occurrence anywhere for one with a space. \<open>rowMatches\<close> and
  \<open>commitTypeOf\<close> take the first row of a table with a matching keyword.
\<close>

definition whitespaceOnly :: "string \<Rightarrow> bool" where
  "whitespaceOnly s = (\<exists>ws. set ws \<subseteq> set spaceRunes \<and> s = concat ws)"

definition occursAt :: "string \<Rightarrow> string \<Rightarrow> nat \<Rightarrow> bool" where
  "occursAt text keyword i =
     (i + length keyword \<le> length text \<and> take (length keyword) (drop i text) = keyword)"

definition wholeWordAt :: "string \<Rightarrow> string \<Rightarrow> nat \<Rightarrow> bool" where
  "wholeWordAt text keyword i =
     (occursAt text keyword i \<and>
      (i = 0 \<or> \<not> IsLetter (text ! (i - 1))) \<and>
      (i + length keyword = length text \<or> \<not> IsLetter (text ! (i + length keyword))))"

definition wholeWord :: "string \<Rightarrow> string \<Rightarrow> bool" where
  "wholeWord text keyword = list_ex (wholeWordAt text keyword) [0..<Suc (length text)]"

definition substring :: "string \<Rightarrow> string \<Rightarrow> bool" where
  "substring text keyword = list_ex (occursAt text keyword) [0..<Suc (length text)]"

definition keywordMatches :: "string \<Rightarrow> string \<Rightarrow> bool" where
  "keywordMatches text keyword =
     (if CHR '' '' \<in> set keyword then substring text keyword else wholeWord text keyword)"

definition commitTypeOf ::
  "(string \<Rightarrow> string \<Rightarrow> bool) \<Rightarrow> (string list \<times> string) list \<Rightarrow> string \<Rightarrow> string"
where
  "commitTypeOf matches table lower =
     (case find (\<lambda>row. list_ex (matches lower) (fst row)) table of
        None \<Rightarrow> ''feat''
      | Some row \<Rightarrow> snd row)"



section \<open>Properties of the verification pass and the retry loop\<close>









lemma mergeLoop_prefix: "prefix merged (mergeLoop merged seen fs)"
  by (induction fs arbitrary: merged seen) (auto intro: append_prefixD)

text \<open>
  C3. Every result that a verification pass returns has
  \<open>success \<longleftrightarrow> build_ok \<and> check_ok \<and> test_ok\<close>; and when the build failed, only the build
  command was run (the static check and the tests were skipped), the output of the check
  is empty and \<open>check_ok\<close> is false.
\<close>

theorem Verify_result_invariant:
  "Verify run parse cfg = Some (r, cmds) \<Longrightarrow>
     (VerifyResult_Success r \<longleftrightarrow> BuildOK r \<and> VetOK r \<and> TestOK r) \<and>
     (\<not> BuildOK r \<longrightarrow> cmds = [goBuild] \<and> VetOut r = [] \<and> \<not> VetOK r \<and> TestOutput r = [])"
  by (auto simp: Verify_def VerifyResult_Success_def Let_def split: prod.splits if_splits list.splits)


theorem Verify_result_invariant_witness:
  "Verify (commands (scenarioEnv 1) 0) (\<lambda>out. []) (VerifyConfig (scenarioCfg 3)) =
     Some (\<lparr>BuildOK = False, VetOK = False, TestOK = True, Errors = [],
            BuildOut = ''./main.go:4:9: syntax error'', VetOut = [], TestOutput = []\<rparr>, [goBuild]) \<and>
   \<not> VerifyResult_Success
       \<lparr>BuildOK = False, VetOK = False, TestOK = True, Errors = [],
        BuildOut = ''./main.go:4:9: syntax error'', VetOut = [], TestOutput = []\<rparr>"
proof -
  have v: "Verify (commands (scenarioEnv 1) 0) (\<lambda>out. []) (VerifyConfig (scenarioCfg 3)) =
     Some (\<lparr>BuildOK = False, VetOK = False, TestOK = True, Errors = [],
            BuildOut = ''./main.go:4:9: syntax error'', VetOut = [], TestOutput = []\<rparr>, [goBuild])"
    by (simp add: scenarioEnv_def scenarioCfg_def Verify_def Let_def)
  from Verify_result_invariant [OF v] v show ?thesis by simp
qed

declare retryLoop.simps [simp del]

lemma retryLoop_success:
  assumes "0 \<le> i" "i + 1 + int d \<le> M"
    and "\<forall>k. nat i \<le> k \<and> k \<le> nat i + d \<longrightarrow> retryRuns env k"
    and "\<forall>k. nat i < k \<and> k \<le> nat i + d \<longrightarrow> failsAt env cfg k"
    and "succeedsAt env cfg (nat i + d + 1)"
  shows "\<exists>r. retryLoop env cfg M i result vr0 (nat i) = Some (r, None, nat i + d + 1) \<and>
           Success r \<and> Retries r = Retries result + 1 + int d \<and>
           FinalResult r = verifyAt env cfg (nat i + d + 1)"
  using assms
proof (induction d arbitrary: i result vr0)
  case 0
  from "0.prems"(3) have rr: "retryRuns env (nat i)" by simp
  from "0.prems"(5) obtain vr cmds where
    v: "Verify (commands env (Suc (nat i))) (parseErrors env) (VerifyConfig cfg) = Some (vr, cmds)"
    and s: "VerifyResult_Success vr"
    by (auto simp: succeedsAt_def verifyAt_def split: option.splits)
  let ?p = "FormatErrors env vr0 (ModifiedFiles result) (FormatConfig cfg)"
  from rr obtain fs where f: "retryFn env (nat i) ?p = Inr fs" and c: "ctxErr env (nat i) = None"
    unfolding retryRuns_def by blast
  show ?case
    using "0.prems"(1,2) v s f c
    by (subst retryLoop.simps) (simp add: Let_def verifyAt_def)
next
  case (Suc d)
  from Suc.prems(3) have rr: "retryRuns env (nat i)" by simp
  from Suc.prems(4) have "failsAt env cfg (Suc (nat i))" by simp
  then obtain vr cmds where
    v: "Verify (commands env (Suc (nat i))) (parseErrors env) (VerifyConfig cfg) = Some (vr, cmds)"
    and s: "\<not> VerifyResult_Success vr"
    by (auto simp: failsAt_def verifyAt_def split: option.splits)
  let ?p = "FormatErrors env vr0 (ModifiedFiles result) (FormatConfig cfg)"
  from rr obtain fs where f: "retryFn env (nat i) ?p = Inr fs" and c: "ctxErr env (nat i) = None"
    unfolding retryRuns_def by blast
  let ?result = "result\<lparr>Retries := Retries result + 1,
                   ModifiedFiles := mergeFiles (ModifiedFiles result) fs,
                   FinalResult := Some vr\<rparr>"
  have n: "nat (i + 1) = Suc (nat i)" using Suc.prems(1) by simp
  have "\<exists>r. retryLoop env cfg M (i + 1) ?result vr (nat (i + 1)) = Some (r, None, nat (i + 1) + d + 1) \<and>
           Success r \<and> Retries r = Retries ?result + 1 + int d \<and>
           FinalResult r = verifyAt env cfg (nat (i + 1) + d + 1)"
  proof (rule Suc.IH)
    show "0 \<le> i + 1" using Suc.prems(1) by simp
    show "i + 1 + 1 + int d \<le> M" using Suc.prems(2) by simp
    show "\<forall>k. nat (i + 1) \<le> k \<and> k \<le> nat (i + 1) + d \<longrightarrow> retryRuns env k"
      using Suc.prems(3) n by simp
    show "\<forall>k. nat (i + 1) < k \<and> k \<le> nat (i + 1) + d \<longrightarrow> failsAt env cfg k"
      using Suc.prems(4) n by simp
    show "succeedsAt env cfg (nat (i + 1) + d + 1)"
      using Suc.prems(5) n by simp
  qed
  then obtain r where
    r: "retryLoop env cfg M (i + 1) ?result vr (Suc (nat i)) = Some (r, None, nat i + Suc d + 1)"
      "Success r" "Retries r = Retries result + 1 + int (Suc d)"
      "FinalResult r = verifyAt env cfg (nat i + Suc d + 1)"
    using n by auto
  have "retryLoop env cfg M i result vr0 (nat i) = retryLoop env cfg M (i + 1) ?result vr (Suc (nat i))"
    using Suc.prems(1,2) v s f c
    by (subst retryLoop.simps) (simp add: Let_def)
  with r show ?case by auto
qed

lemma retryLoop_exhausted:
  assumes "0 \<le> i" "i \<le> M" "nat (M - i) = d"
    and "\<forall>k. nat i \<le> k \<and> k < nat M \<longrightarrow> retryRuns env k"
    and "\<forall>k. nat i < k \<and> k \<le> nat M \<longrightarrow> failsAt env cfg k"
  shows "\<exists>r. retryLoop env cfg M i result vr0 (nat i) =
             Some (r, Some (''max retries ('' @ fmt_d M @ '') exhausted with remaining errors''), nat M) \<and>
           Success r = Success result \<and> Retries r = Retries result + (M - i)"
  using assms
proof (induction d arbitrary: i result vr0)
  case 0
  then have "i = M" by simp
  then show ?case
    by (subst retryLoop.simps) simp
next
  case (Suc d)
  then have lt: "i < M" by simp
  from Suc.prems(4) lt Suc.prems(1) have rr: "retryRuns env (nat i)" by simp
  from Suc.prems(5) lt Suc.prems(1) have "failsAt env cfg (Suc (nat i))" by simp
  then obtain vr cmds where
    v: "Verify (commands env (Suc (nat i))) (parseErrors env) (VerifyConfig cfg) = Some (vr, cmds)"
    and s: "\<not> VerifyResult_Success vr"
    by (auto simp: failsAt_def verifyAt_def split: option.splits)
  let ?p = "FormatErrors env vr0 (ModifiedFiles result) (FormatConfig cfg)"
  from rr obtain fs where f: "retryFn env (nat i) ?p = Inr fs" and c: "ctxErr env (nat i) = None"
    unfolding retryRuns_def by blast
  let ?result = "result\<lparr>Retries := Retries result + 1,
                   ModifiedFiles := mergeFiles (ModifiedFiles result) fs,
                   FinalResult := Some vr\<rparr>"
  have n: "nat (i + 1) = Suc (nat i)" using Suc.prems(1) by simp
  have "\<exists>r. retryLoop env cfg M (i + 1) ?result vr (nat (i + 1)) =
             Some (r, Some (''max retries ('' @ fmt_d M @ '') exhausted with remaining errors''), nat M) \<and>
           Success r = Success ?result \<and> Retries r = Retries ?result + (M - (i + 1))"
  proof (rule Suc.IH)
    show "0 \<le> i + 1" using Suc.prems(1) by simp
    show "i + 1 \<le> M" using lt by simp
    show "nat (M - (i + 1)) = d" using Suc.prems(3) by simp
    show "\<forall>k. nat (i + 1) \<le> k \<and> k < nat M \<longrightarrow> retryRuns env k"
      using Suc.prems(4) n by simp
    show "\<forall>k. nat (i + 1) < k \<and> k \<le> nat M \<longrightarrow> failsAt env cfg k"
      using Suc.prems(5) n by simp
  qed
  then obtain r where
    r: "retryLoop env cfg M (i + 1) ?result vr (Suc (nat i)) =
          Some (r, Some (''max retries ('' @ fmt_d M @ '') exhausted with remaining errors''), nat M)"
      "Success r = Success result" "Retries r = Retries result + (M - i)"
    using n by auto
  have "retryLoop env cfg M i result vr0 (nat i) = retryLoop env cfg M (i + 1) ?result vr (Suc (nat i))"
    using lt v s f c
    by (subst retryLoop.simps) (simp add: Let_def)
  with r show ?case by auto
qed

lemma Contains_prefix: "Contains (sub @ rest) sub"
proof (cases "sub @ rest")
  case Nil
  then show ?thesis by (simp add: Contains_def)
next
  case (Cons a list)
  have "prefix sub (sub @ rest)" by simp
  with Cons show ?thesis by (simp add: Contains_def)
qed


text \<open>
  C4. The outcomes of the verify/retry loop. \<open>MaxRetries\<close> is the bound the loop runs
  with (\<open>maxRetriesOf\<close>: the configured value, 3 when that is 0).
  If the initial verification succeeds, the loop returns success with 0 retries and the
  callback was not called. If the re-verification after the \<open>i\<close>-th retry is the first
  verification to succeed (\<open>1 \<le> i \<le> MaxRetries\<close>, every iteration up to it having found the
  context live and got a list from the callback), it returns success with \<open>i\<close> retries.
  If the initial verification and all \<open>MaxRetries\<close> re-verifications fail, it returns
  no success, \<open>MaxRetries\<close> retries and an error whose message contains \<open>max retries\<close>.
  The third component of the outcome counts the calls of the callback. (\<open>MaxRetries\<close> is
  read as a count; with a negative bound the loop makes no retry.)
\<close>

theorem Run_outcomes:
  "(succeedsAt env cfg 0 \<longrightarrow>
      (\<exists>r. Run env cfg initialFiles = Some (r, None, 0) \<and> Success r \<and> Retries r = 0)) \<and>
   (\<forall>i. 1 \<le> i \<and> i \<le> maxRetriesOf cfg \<and>
        (\<forall>k < nat i. retryRuns env k \<and> failsAt env cfg k) \<and> succeedsAt env cfg (nat i) \<longrightarrow>
      (\<exists>r. Run env cfg initialFiles = Some (r, None, nat i) \<and> Success r \<and> Retries r = i)) \<and>
   (0 \<le> maxRetriesOf cfg \<and> (\<forall>k < nat (maxRetriesOf cfg). retryRuns env k) \<and>
        (\<forall>k \<le> nat (maxRetriesOf cfg). failsAt env cfg k) \<longrightarrow>
      (\<exists>r e. Run env cfg initialFiles = Some (r, Some e, nat (maxRetriesOf cfg)) \<and>
         \<not> Success r \<and> Retries r = maxRetriesOf cfg \<and> Contains e ''max retries''))"
proof (intro conjI allI impI)
  assume "succeedsAt env cfg 0"
  then show "\<exists>r. Run env cfg initialFiles = Some (r, None, 0) \<and> Success r \<and> Retries r = 0"
    by (auto simp: succeedsAt_def verifyAt_def Run_def Let_def split: option.splits)
next
  fix i :: int
  assume a: "1 \<le> i \<and> i \<le> maxRetriesOf cfg \<and>
        (\<forall>k < nat i. retryRuns env k \<and> failsAt env cfg k) \<and> succeedsAt env cfg (nat i)"
  then obtain d where d: "nat i = Suc d" by (cases "nat i") auto
  from a have "failsAt env cfg 0" by auto
  then obtain vr cmds where
    v: "Verify (commands env 0) (parseErrors env) (VerifyConfig cfg) = Some (vr, cmds)"
    and s: "\<not> VerifyResult_Success vr"
    by (auto simp: failsAt_def verifyAt_def split: option.splits)
  let ?result = "\<lparr>Success = False, Retries = 0, FinalResult = Some vr,
                    ModifiedFiles = initialFiles,
                    TokenUsage = \<lparr>InputTokens = 0, OutputTokens = 0\<rparr>\<rparr>"
  have "\<exists>r. retryLoop env cfg (maxRetriesOf cfg) 0 ?result vr (nat 0) = Some (r, None, nat 0 + d + 1) \<and>
           Success r \<and> Retries r = Retries ?result + 1 + int d \<and>
           FinalResult r = verifyAt env cfg (nat 0 + d + 1)"
  proof (rule retryLoop_success)
    show "(0::int) \<le> 0" by simp
    show "0 + 1 + int d \<le> maxRetriesOf cfg" using a d by linarith
    show "\<forall>k. nat 0 \<le> k \<and> k \<le> nat 0 + d \<longrightarrow> retryRuns env k" using a d by simp
    show "\<forall>k. nat 0 < k \<and> k \<le> nat 0 + d \<longrightarrow> failsAt env cfg k" using a d by simp
    show "succeedsAt env cfg (nat 0 + d + 1)" using a d by simp
  qed
  moreover have "int d + 1 = i" using d a by linarith
  ultimately show "\<exists>r. Run env cfg initialFiles = Some (r, None, nat i) \<and> Success r \<and> Retries r = i"
    using v s d by (auto simp: Run_def Let_def)
next
  assume a: "0 \<le> maxRetriesOf cfg \<and> (\<forall>k < nat (maxRetriesOf cfg). retryRuns env k) \<and>
        (\<forall>k \<le> nat (maxRetriesOf cfg). failsAt env cfg k)"
  let ?M = "maxRetriesOf cfg"
  from a have "failsAt env cfg 0" by auto
  then obtain vr cmds where
    v: "Verify (commands env 0) (parseErrors env) (VerifyConfig cfg) = Some (vr, cmds)"
    and s: "\<not> VerifyResult_Success vr"
    by (auto simp: failsAt_def verifyAt_def split: option.splits)
  let ?result = "\<lparr>Success = False, Retries = 0, FinalResult = Some vr,
                    ModifiedFiles = initialFiles,
                    TokenUsage = \<lparr>InputTokens = 0, OutputTokens = 0\<rparr>\<rparr>"
  have "\<exists>r. retryLoop env cfg ?M 0 ?result vr (nat 0) =
             Some (r, Some (''max retries ('' @ fmt_d ?M @ '') exhausted with remaining errors''), nat ?M) \<and>
           Success r = Success ?result \<and> Retries r = Retries ?result + (?M - 0)"
  proof (rule retryLoop_exhausted)
    show "(0::int) \<le> 0" by simp
    show "0 \<le> ?M" using a by simp
    show "nat (?M - 0) = nat ?M" by simp
    show "\<forall>k. nat 0 \<le> k \<and> k < nat ?M \<longrightarrow> retryRuns env k" using a by simp
    show "\<forall>k. nat 0 < k \<and> k \<le> nat ?M \<longrightarrow> failsAt env cfg k" using a by simp
  qed
  moreover have "Contains (''max retries'' @ ('' ('' @ fmt_d ?M @ '') exhausted with remaining errors'')) ''max retries''"
    by (rule Contains_prefix)
  ultimately show "\<exists>r e. Run env cfg initialFiles = Some (r, Some e, nat ?M) \<and>
         \<not> Success r \<and> Retries r = ?M \<and> Contains e ''max retries''"
    using v s by (auto simp: Run_def Let_def)
qed

lemma verifyAt_scenario:
  "verifyAt (scenarioEnv n) (scenarioCfg m) k =
     Some \<lparr>BuildOK = \<not> k < n, VetOK = \<not> k < n, TestOK = True, Errors = [],
           BuildOut = (if k < n then ''./main.go:4:9: syntax error'' else []), VetOut = [], TestOutput = []\<rparr>"
  by (simp add: verifyAt_def scenarioEnv_def scenarioCfg_def Verify_def Let_def)

theorem Run_outcomes_witness:
  "(\<exists>r. Run (scenarioEnv 0) (scenarioCfg 3) [''main.go''] = Some (r, None, 0) \<and> Success r \<and> Retries r = 0) \<and>
   (\<exists>r. Run (scenarioEnv 1) (scenarioCfg 3) [''main.go''] = Some (r, None, 1) \<and> Success r \<and> Retries r = 1) \<and>
   (\<exists>r e. Run (scenarioEnv 9) (scenarioCfg 2) [''main.go''] = Some (r, Some e, 2) \<and>
       \<not> Success r \<and> Retries r = 2 \<and> Contains e ''max retries'')"
proof -
  have f: "failsAt (scenarioEnv 9) (scenarioCfg 2) k" if "k \<le> 2" for k
    using that by (simp add: failsAt_def verifyAt_scenario VerifyResult_Success_def)
  have r: "retryRuns (scenarioEnv n) k" for n k
    by (simp add: retryRuns_def scenarioEnv_def)
  have m2: "maxRetriesOf (scenarioCfg 2) = 2" and m3: "maxRetriesOf (scenarioCfg 3) = 3"
    by (simp_all add: maxRetriesOf_def scenarioCfg_def)
  have s0: "succeedsAt (scenarioEnv 0) (scenarioCfg 3) 0"
    by (simp add: succeedsAt_def verifyAt_scenario VerifyResult_Success_def)
  have s1: "succeedsAt (scenarioEnv 1) (scenarioCfg 3) (nat 1)"
    by (simp add: succeedsAt_def verifyAt_scenario VerifyResult_Success_def)
  have f1: "failsAt (scenarioEnv 1) (scenarioCfg 3) 0"
    by (simp add: failsAt_def verifyAt_scenario VerifyResult_Success_def)
  note A = Run_outcomes [of "scenarioEnv 0" "scenarioCfg 3" "[''main.go'']", THEN conjunct1, rule_format, OF s0]
  note B = Run_outcomes [of "scenarioEnv 1" "scenarioCfg 3" "[''main.go'']", THEN conjunct2, THEN conjunct1, rule_format, of 1]
  note C = Run_outcomes [of "scenarioEnv 9" "scenarioCfg 2" "[''main.go'']", THEN conjunct2, THEN conjunct2, rule_format]
  have B': "\<exists>r. Run (scenarioEnv 1) (scenarioCfg 3) [''main.go''] = Some (r, None, 1) \<and> Success r \<and> Retries r = 1"
    using B s1 f1 r m3 by simp
  have C': "\<exists>r e. Run (scenarioEnv 9) (scenarioCfg 2) [''main.go''] = Some (r, Some e, 2) \<and>
       \<not> Success r \<and> Retries r = 2 \<and> Contains e ''max retries''"
    using C f r m2 by simp
  from A B' C' show ?thesis by blast
qed








section \<open>Properties of the atomic write\<close>

lemma remove_created: "fs name = None \<Longrightarrow> os_Remove (fs(name \<mapsto> f)) name = fs"
  by (auto simp: os_Remove_def)

text \<open>
  C1. When a step of the atomic write before the rename fails (creating the temporary file,
  writing it, closing it or setting its permissions), an error is returned and the file
  system is the one before the call: the temporary file is gone and the target has the
  bytes it had. The same holds whenever an error is returned. The target differs after
  the call only when no step failed and no error is returned, and then it holds the new
  bytes.
\<close>

theorem atomicWrite_atomic:
  "(createTempFails env \<or> writeFails env \<or> closeFails env \<or> chmodFails env \<longrightarrow>
      fst (atomicWrite env fs path data) \<noteq> None \<and> snd (atomicWrite env fs path data) = fs) \<and>
   (fst (atomicWrite env fs path data) \<noteq> None \<longrightarrow> snd (atomicWrite env fs path data) = fs) \<and>
   (snd (atomicWrite env fs path data) path \<noteq> fs path \<longrightarrow>
      fst (atomicWrite env fs path data) = None \<and>
      \<not> (createTempFails env \<or> writeFails env \<or> closeFails env \<or> chmodFails env \<or> renameFails env) \<and>
      map_option bytes (snd (atomicWrite env fs path data) path) = Some data)"
proof (cases "createTempFails env \<or> fs (tempName env) \<noteq> None")
  case True
  then show ?thesis
    by (simp add: atomicWrite_def os_CreateTemp_def Let_def)
next
  case False
  then have fresh: "fs (tempName env) = None" and c: "\<not> createTempFails env" by auto
  show ?thesis
  proof (cases "writeFails env \<or> closeFails env \<or> chmodFails env \<or> renameFails env")
    case True
    then show ?thesis
      using fresh c
      by (auto simp: atomicWrite_def os_CreateTemp_def os_Write_def os_Close_def os_Chmod_def
          os_Rename_def os_Remove_def Let_def)
  next
    case False
    then show ?thesis
      using fresh c
      by (auto simp: atomicWrite_def os_CreateTemp_def os_Write_def os_Close_def os_Chmod_def
          os_Rename_def os_Remove_def Let_def)
  qed
qed

theorem atomicWrite_atomic_witness:
  "fst (atomicWrite diskFull configFs ''config.yaml'' ''timeout: 60'') =
     Some ''writing temp file: no space left on device'' \<and>
   snd (atomicWrite diskFull configFs ''config.yaml'' ''timeout: 60'') = configFs \<and>
   configFs ''config.yaml'' = Some \<lparr>bytes = ''timeout: 30'', mode = 420\<rparr>"
proof -
  have w: "writeFails diskFull" by (simp add: diskFull_def)
  have e: "fst (atomicWrite diskFull configFs ''config.yaml'' ''timeout: 60'') =
     Some ''writing temp file: no space left on device''"
    by (simp add: atomicWrite_def os_CreateTemp_def os_Write_def os_Stat_def diskFull_def
        configFs_def Let_def)
  from atomicWrite_atomic [of diskFull configFs "''config.yaml''" "''timeout: 60''"] w e
  show ?thesis by (simp add: configFs_def)
qed

section \<open>Properties of the reference graph\<close>























section \<open>Properties of the matcher\<close>

lemma Index_Some:
  "Index s sub = Some i \<Longrightarrow>
     i + length sub \<le> length s \<and> take (length sub) (drop i s) = sub \<and>
     (\<forall>j < i. take (length sub) (drop j s) \<noteq> sub)"
proof (induction s arbitrary: i)
  case Nil
  then show ?case by (simp split: if_splits)
next
  case (Cons c cs)
  show ?case
  proof (cases "prefix sub (c # cs)")
    case True
    with Cons.prems have "i = 0" by simp
    moreover from True have "take (length sub) (c # cs) = sub" "length sub \<le> length (c # cs)"
      by (auto simp: prefix_def dest: arg_cong [where f = length])
    ultimately show ?thesis by simp
  next
    case False
    with Cons.prems obtain i' where i': "Index cs sub = Some i'" "i = Suc i'" by auto
    from Cons.IH [OF i'(1)] have ih: "i' + length sub \<le> length cs"
      "take (length sub) (drop i' cs) = sub" "\<forall>j < i'. take (length sub) (drop j cs) \<noteq> sub"
      by auto
    have "take (length sub) (drop j (c # cs)) \<noteq> sub" if "j < i" for j
    proof (cases j)
      case 0
      have "prefix (take (length sub) (c # cs)) (c # cs)" by (rule take_is_prefix)
      with False show ?thesis unfolding 0 by auto
    next
      case (Suc j')
      with that i'(2) ih(3) show ?thesis by simp
    qed
    with ih i'(2) show ?thesis by simp
  qed
qed

text \<open>
  C2, as amended. When Stage Exact finds a match, the matcher returns that match and
  asks no later stage: the byte range is \<open>[idx, idx + len(search))\<close> for the first offset
  \<open>idx\<close> at which the search text stands in the content, the stage is Exact and the
  similarity 1. (The later stages work on whole lines; run on their own on the same texts
  they may find nothing, or another range.)
\<close>

theorem findMatch_exact:
  assumes "exactMatch content search = Some m"
  shows "findMatch lev content search threshold = Some m \<and>
     stage m = StageExact \<and> similarity' m = 1 \<and>
     end' m = start m + length search \<and> end' m \<le> length content \<and>
     take (length search) (drop (start m) content) = search \<and>
     (\<forall>j < start m. take (length search) (drop j content) \<noteq> search)"
proof -
  from assms obtain idx where idx: "Index content search = Some idx"
    and m: "m = \<lparr>start = idx, end' = idx + length search, stage = StageExact, similarity' = 1\<rparr>"
    by (auto simp: exactMatch_def split: option.splits)
  from Index_Some [OF idx] m assms show ?thesis
    by (simp add: findMatch_def)
qed

theorem findMatch_exact_witness:
  "findMatch mismatches ''abc'' ''b'' (4 / 5) =
     Some \<lparr>start = 1, end' = 2, stage = StageExact, similarity' = 1\<rparr>"
proof -
  have "exactMatch ''abc'' ''b'' = Some \<lparr>start = 1, end' = 2, stage = StageExact, similarity' = 1\<rparr>"
    by (simp add: exactMatch_def)
  from findMatch_exact [OF this] show ?thesis by simp
qed

text \<open>
  The search \<^verbatim>\<open>b\<close> stands in \<^verbatim>\<open>abc\<close> at bytes 1 to 2, and no line of \<^verbatim>\<open>abc\<close> is
  \<^verbatim>\<open>b\<close>: the Whitespace-Normalized stage finds nothing. In the content \<^verbatim>\<open>a\<close> the search
  \<^verbatim>\<open>a\<close> is the whole line, and the Whitespace-Normalized stage gives the range up to the
  start of a next line, bytes 0 to 2.
\<close>

theorem later_stages_counterexample:
  "exactMatch ''abc'' ''b'' = Some \<lparr>start = 1, end' = 2, stage = StageExact, similarity' = 1\<rparr> \<and>
   whitespaceNormalizedMatch ''abc'' ''b'' = None \<and>
   exactMatch ''a'' ''a'' = Some \<lparr>start = 0, end' = 1, stage = StageExact, similarity' = 1\<rparr> \<and>
   whitespaceNormalizedMatch ''a'' ''a'' =
     Some \<lparr>start = 0, end' = 2, stage = StageWhitespaceNormalized, similarity' = 1\<rparr>"
  by code_simp

















section \<open>Properties of the parser\<close>

lemma parseBlock_counts:
  "parseBlock lines searchIdx filePath r = (n, r') \<Longrightarrow>
     BlocksFound r' = BlocksFound r + 1 \<and>
     (BlocksParsed r' = BlocksParsed r + 1 \<and> length (Edits r') = length (Edits r) + 1 \<and>
        ParseErrors r' = ParseErrors r \<or>
      BlocksParsed r' = BlocksParsed r \<and> Edits r' = Edits r \<and>
        length (ParseErrors r') = length (ParseErrors r) + 1)"
  by (auto simp: parseBlock_def Let_def split: prod.splits if_splits)

lemma parseBlock_counted:
  "parseBlock lines searchIdx filePath r = (n, r') \<Longrightarrow> counted r \<Longrightarrow> counted r'"
  using parseBlock_counts [of lines searchIdx filePath r n r']
  by (auto simp: counted_def)

lemma parseLoop_counted:
  "counted result \<Longrightarrow> counted (fst (parseLoop lines i result reasoning))"
proof (induction lines i result reasoning rule: parseLoop.induct)
  case (1 lines i result reasoning)
  show ?case
  proof (cases "i < length lines")
    case False
    with "1.prems" show ?thesis by simp
  next
    case True
    show ?thesis
    proof (cases "find (\<lambda>j. isMarker (lines ! j) markerSearch) [i..<length lines]")
      case None
      with True "1.prems" show ?thesis by simp
    next
      case (Some searchIdx)
      let ?filePathLine = "int searchIdx - 1"
      let ?reasoning = "foldl appendReasoning reasoning
                               (take (nat (?filePathLine - int i)) (drop i lines))"
      let ?filePath = "if ?filePathLine \<ge> 0 then extractFilePath (lines ! nat ?filePathLine) else []"
      obtain n r' where b: "parseBlock lines searchIdx ?filePath result = (n, r')"
        by (cases "parseBlock lines searchIdx ?filePath result")
      have c: "counted r'" using parseBlock_counted [OF b "1.prems"] .
      have "counted (fst (parseLoop lines (searchIdx + 1 + n) r' ?reasoning))"
        using "1.IH" [OF True Some refl refl refl refl b [symmetric] c] .
      moreover have "parseLoop lines i result reasoning =
          parseLoop lines (searchIdx + 1 + n) r' ?reasoning"
        using True Some b by (subst parseLoop.simps) (simp add: Let_def)
      ultimately show ?thesis by simp
    qed
  qed
qed

text \<open>
  C6. For every response on which the parser returns a result (and not the error that no
  edits were found), \<open>blocks_found = blocks_parsed + |parse_errors|\<close>: every block that was
  opened added one edit or one parse error (\<open>parseBlock_counts\<close>). Besides,
  \<open>blocks_parsed\<close> is the number of edits, and at least one block was found.
\<close>

theorem Parse_counters:
  assumes "Parse response = Inr result"
  shows "BlocksFound result = BlocksParsed result + int (length (ParseErrors result)) \<and>
     BlocksParsed result = int (length (Edits result)) \<and> 0 < BlocksFound result"
proof -
  let ?empty = "\<lparr>Edits = [], ParseErrors = [], ReasoningText = [], BlocksFound = 0,
                      BlocksParsed = 0\<rparr>"
  obtain r reasoning where l: "parseLoop (Split response) 0 ?empty [] = (r, reasoning)"
    by (cases "parseLoop (Split response) 0 ?empty []")
  have "counted ?empty" by (simp add: counted_def)
  from parseLoop_counted [OF this, of "Split response" 0 "[]"] l have c: "counted r" by simp
  from assms l have res: "result = r\<lparr>ReasoningText := TrimSpace reasoning\<rparr>" "BlocksFound r \<noteq> 0"
    by (auto simp: Parse_def Let_def split: if_splits)
  from c have "0 \<le> BlocksFound r" by (simp add: counted_def)
  with res c show ?thesis by (simp add: counted_def)
qed

theorem Parse_counters_witness:
  "\<exists>result. Parse sampleResponse = Inr result \<and> BlocksFound result = 2 \<and> BlocksParsed result = 1 \<and>
     length (ParseErrors result) = 1 \<and> length (Edits result) = 1"
proof -
  have p: "Parse sampleResponse =
    Inr \<lparr>Edits =
        [\<lparr>Edit_FilePath = ''config.yaml'', OldContent = ''timeout: 30'' @ [NL],
            NewContent = ''timeout: 60'' @ [NL], IsCreate = False\<rparr>],
        ParseErrors =
          [\<lparr>Position = 10, RawText = ''<<<<<<< SEARCH'' @ [NL] @ ''retries: 3'',
              Message = ''unclosed block: missing ======= divider''\<rparr>],
        ReasoningText = ''The timeout is too short.'' @ [NL] @ ''and the retries'',
        BlocksFound = 2, BlocksParsed = 1\<rparr>"
    by code_simp
  from Parse_counters [OF p] p show ?thesis by simp
qed

section \<open>Properties of commit messages\<close>

lemma Index_None: "Index s sub = None \<Longrightarrow> \<not> occursAt s sub i"
proof (induction s arbitrary: i)
  case Nil
  then show ?case by (auto simp: occursAt_def split: if_splits)
next
  case (Cons c cs)
  from Cons.prems have np: "\<not> prefix sub (c # cs)" and n: "Index cs sub = None"
    by (auto split: if_splits)
  show ?case
  proof (cases i)
    case 0
    have "prefix (take (length sub) (c # cs)) (c # cs)" by (rule take_is_prefix)
    with np show ?thesis unfolding 0 occursAt_def by auto
  next
    case (Suc j)
    from Cons.IH [OF n, of j] show ?thesis unfolding Suc occursAt_def by simp
  qed
qed

lemma Index_first:
  assumes "Index s sub = Some i"
  shows "occursAt s sub i \<and> (\<forall>j < i. \<not> occursAt s sub j)"
  using Index_Some [OF assms] by (auto simp: occursAt_def)

lemma occursAt_drop:
  "idx \<le> length text \<Longrightarrow> occursAt (drop idx text) kw i = occursAt text kw (idx + i)"
  by (auto simp: occursAt_def ac_simps)

lemma containsWordFrom_spec:
  "idx \<le> length str \<Longrightarrow> kw \<noteq> [] \<Longrightarrow>
     containsWordFrom str kw idx = Some (\<exists>i \<ge> idx. wholeWordAt str kw i)"
proof (induction str kw idx rule: containsWordFrom.induct)
  case (1 str kw idx)
  show ?case
  proof (cases "Index (drop idx str) kw")
    case None
    have "\<not> wholeWordAt str kw i" if "i \<ge> idx" for i
    proof -
      from that obtain k where "i = idx + k" by (auto simp: le_iff_add)
      with Index_None [OF None, of k] "1.prems"(1) show ?thesis
        by (simp add: wholeWordAt_def occursAt_drop)
    qed
    with None "1.prems" show ?thesis
      by (subst containsWordFrom.simps) auto
  next
    case (Some i)
    let ?start = "idx + i"
    from Index_first [OF Some] "1.prems"(1)
    have occ: "occursAt str kw ?start" and first: "\<forall>j < i. \<not> occursAt str kw (idx + j)"
      by (simp_all add: occursAt_drop)
    have before: "\<not> wholeWordAt str kw j" if "idx \<le> j" "j < ?start" for j
    proof -
      from that obtain k where "j = idx + k" "k < i" by (auto simp: le_iff_add)
      with first show ?thesis by (simp add: wholeWordAt_def)
    qed
    show ?thesis
    proof (cases "wholeWordAt str kw ?start")
      case True
      then have "(?start = 0 \<or> \<not> IsLetter (str ! (?start - 1))) \<and>
          (?start + length kw = length str \<or> \<not> IsLetter (str ! (?start + length kw)))"
        by (simp add: wholeWordAt_def)
      with Some "1.prems" have "containsWordFrom str kw idx = Some True"
        by (subst containsWordFrom.simps) (simp add: Let_def)
      moreover have "\<exists>j \<ge> idx. wholeWordAt str kw j"
        using True by (intro exI [of _ ?start]) simp
      ultimately show ?thesis by simp
    next
      case False
      with occ have nok: "\<not> ((?start = 0 \<or> \<not> IsLetter (str ! (?start - 1))) \<and>
          (?start + length kw = length str \<or> \<not> IsLetter (str ! (?start + length kw))))"
        by (simp add: wholeWordAt_def)
      from occ "1.prems"(2) have le: "?start + 1 \<le> length str"
        by (cases kw) (auto simp: occursAt_def)
      have rec: "containsWordFrom str kw idx = containsWordFrom str kw (?start + 1)"
        using Some "1.prems"(1) nok by (subst containsWordFrom.simps) (auto simp: Let_def)
      have ih: "containsWordFrom str kw (?start + 1) =
          Some (\<exists>j \<ge> ?start + 1. wholeWordAt str kw j)"
        using "1.IH" [OF _ Some refl refl refl refl _ le "1.prems"(2)] "1.prems"(1) nok
        by simp
      have "(\<exists>j \<ge> ?start + 1. wholeWordAt str kw j) = (\<exists>j \<ge> idx. wholeWordAt str kw j)"
      proof
        assume "\<exists>j \<ge> ?start + 1. wholeWordAt str kw j"
        then obtain j where "j \<ge> ?start + 1" "wholeWordAt str kw j" by blast
        then show "\<exists>j \<ge> idx. wholeWordAt str kw j"
          by (intro exI [of _ j]) simp
      next
        assume "\<exists>j \<ge> idx. wholeWordAt str kw j"
        then obtain j where j: "j \<ge> idx" "wholeWordAt str kw j" by blast
        with before False have "\<not> j < ?start" "j \<noteq> ?start" by auto
        then have "j \<ge> ?start + 1" by simp
        with j show "\<exists>j \<ge> ?start + 1. wholeWordAt str kw j" by blast
      qed
      with rec ih show ?thesis by simp
    qed
  qed
qed

lemma Contains_iff: "Contains s sub = (\<exists>i. occursAt s sub i)"
proof (cases "Index s sub")
  case None
  with Index_None [OF None] show ?thesis by (simp add: Contains_def)
next
  case (Some i)
  with Index_first [OF Some] show ?thesis by (auto simp: Contains_def)
qed

lemma list_ex_upt: "list_ex P [0..<Suc n] = (\<exists>i \<le> n. P i)"
proof -
  have "i \<in> set [0..<Suc n] \<longleftrightarrow> i \<le> n" for i
    by (simp only: set_upt atLeastLessThan_iff less_Suc_eq_le) simp
  then show ?thesis
    unfolding list_ex_iff by blast
qed

lemma occursAt_le: "occursAt str kw i \<Longrightarrow> i \<le> length str"
  by (simp add: occursAt_def)

lemma substring_iff: "substring str kw = (\<exists>i. occursAt str kw i)"
  unfolding substring_def list_ex_upt using occursAt_le by blast

lemma wholeWord_iff: "wholeWord str kw = (\<exists>i. wholeWordAt str kw i)"
  unfolding wholeWord_def list_ex_upt using occursAt_le wholeWordAt_def by blast

lemma occursAt_single: "occursAt kw [c] i = (i < length kw \<and> kw ! i = c)"
proof (cases "i < length kw")
  case True
  then have "take 1 (drop i kw) = [kw ! i]"
    by (simp add: take_Suc_conv_app_nth [of 0] Cons_nth_drop_Suc [symmetric])
  with True show ?thesis by (auto simp: occursAt_def)
next
  case False
  then show ?thesis by (auto simp: occursAt_def)
qed

lemma Contains_space: "Contains kw '' '' = (CHR '' '' \<in> set kw)"
  by (auto simp: Contains_iff occursAt_single in_set_conv_nth)

lemma containsWord_spec:
  assumes "kw \<noteq> []"
  shows "containsWord str kw = Some (keywordMatches str kw)"
proof (cases "CHR '' '' \<in> set kw")
  case True
  then have c: "Contains kw '' ''" by (simp only: Contains_space)
  have "Contains str kw = substring str kw" by (simp only: Contains_iff substring_iff)
  with c True show ?thesis
    by (simp only: containsWord_def keywordMatches_def if_True)
next
  case False
  then have c: "\<not> Contains kw '' ''" by (simp only: Contains_space not_False_eq_True)
  have "containsWordFrom str kw 0 = Some (\<exists>i \<ge> 0. wholeWordAt str kw i)"
    by (rule containsWordFrom_spec) (simp_all add: assms)
  then have "containsWordFrom str kw 0 = Some (wholeWord str kw)"
    by (simp add: wholeWord_iff)
  with c False show ?thesis
    by (simp only: containsWord_def keywordMatches_def if_False)
qed

lemma anyKeyword_spec:
  "[] \<notin> set kws \<Longrightarrow> anyKeyword lower kws = Some (list_ex (keywordMatches lower) kws)"
  by (induction kws) (auto simp: containsWord_spec split: bool.splits)

lemma firstType_spec:
  "list_all (\<lambda>row. [] \<notin> set (fst row)) table \<Longrightarrow>
     firstType lower table = Some (commitTypeOf keywordMatches table lower)"
proof (induction table)
  case Nil
  then show ?case by (simp add: commitTypeOf_def)
next
  case (Cons row table)
  obtain kws p where row: "row = (kws, p)" by (cases row)
  from Cons.prems have k: "[] \<notin> set kws" and t: "list_all (\<lambda>row. [] \<notin> set (fst row)) table"
    by (simp_all add: row)
  show ?case
    using Cons.IH [OF t] anyKeyword_spec [OF k, of lower]
    by (simp add: row commitTypeOf_def)
qed

lemma commitTypes_nonempty: "list_all (\<lambda>row. [] \<notin> set (fst row)) commitTypes"
  by (simp add: commitTypes_def)

lemma inferCommitType_spec:
  "inferCommitType U prompt = Some (commitTypeOf keywordMatches commitTypes (ToLower U prompt))"
  by (simp add: inferCommitType_def firstType_spec [OF commitTypes_nonempty])


declare TrimLeftRunes.simps [simp del]

lemma runeWidth_found:
  assumes "runeWidth Rs s \<noteq> 0"
  shows "\<exists>q \<in> set Rs. prefix q s \<and> length q = runeWidth Rs s"
proof (cases "find (\<lambda>q. prefix q s) Rs")
  case None
  with assms show ?thesis by (simp add: runeWidth_def)
next
  case (Some q)
  then have "q \<in> set Rs" "prefix q s" by (auto simp: find_Some_iff)
  with Some show ?thesis by (auto simp: runeWidth_def)
qed

lemma runeWidth_prefix:
  assumes "[] \<notin> set Rs" "q \<in> set Rs" "prefix q s"
  shows "runeWidth Rs s \<noteq> 0"
proof (cases "find (\<lambda>q. prefix q s) Rs")
  case None
  with assms show ?thesis by (auto simp: find_None_iff)
next
  case (Some p)
  then have "p \<in> set Rs" by (auto simp: find_Some_iff)
  with assms(1) have "p \<noteq> []" by auto
  with Some show ?thesis by (simp add: runeWidth_def)
qed

lemma TrimLeftRunes_Nil: "TrimLeftRunes Rs [] = []"
  by (subst TrimLeftRunes.simps) simp

lemma TrimLeftRunes_empty:
  "TrimLeftRunes Rs s = [] \<Longrightarrow> \<exists>ws. set ws \<subseteq> set Rs \<and> s = concat ws"
proof (induction Rs s rule: TrimLeftRunes.induct)
  case (1 runes s)
  show ?case
  proof (cases "runeWidth runes s = 0 \<or> s = []")
    case True
    then have "TrimLeftRunes runes s = s" by (subst TrimLeftRunes.simps) simp
    with "1.prems" have "s = []" by simp
    then have "set [] \<subseteq> set runes \<and> s = concat []" by simp
    then show ?thesis by blast
  next
    case False
    then have "TrimLeftRunes runes s = TrimLeftRunes runes (drop (runeWidth runes s) s)"
      by (subst TrimLeftRunes.simps) simp
    with "1.prems" have "TrimLeftRunes runes (drop (runeWidth runes s) s) = []" by simp
    from "1.IH" [OF False this] obtain ws where
      ws: "set ws \<subseteq> set runes" "drop (runeWidth runes s) s = concat ws" by blast
    from False runeWidth_found [of runes s] obtain q where
      q: "q \<in> set runes" "prefix q s" "length q = runeWidth runes s" by auto
    from q(2,3) have "s = q @ drop (runeWidth runes s) s"
      by (auto simp: prefix_def)
    with ws q(1) have "set (q # ws) \<subseteq> set runes \<and> s = concat (q # ws)" by simp
    then show ?thesis by blast
  qed
qed

lemma TrimLeftRunes_fixed:
  "TrimLeftRunes Rs s = [] \<or> runeWidth Rs (TrimLeftRunes Rs s) = 0"
proof (induction Rs s rule: TrimLeftRunes.induct)
  case (1 runes s)
  show ?case
  proof (cases "runeWidth runes s = 0 \<or> s = []")
    case True
    then have "TrimLeftRunes runes s = s" by (subst TrimLeftRunes.simps) simp
    with True show ?thesis by auto
  next
    case False
    then have "TrimLeftRunes runes s = TrimLeftRunes runes (drop (runeWidth runes s) s)"
      by (subst TrimLeftRunes.simps) simp
    with "1.IH" [OF False] show ?thesis by simp
  qed
qed

lemma spaceRunes_nonempty: "[] \<notin> set spaceRunes"
  by (simp add: spaceRunes_def)

lemma spaceRunes_prefix_free:
  "list_all (\<lambda>a. list_all (\<lambda>b. prefix a b \<longrightarrow> a = b) spaceRunes) spaceRunes"
  by code_simp

lemma spaceRunes_width:
  assumes "q \<in> set spaceRunes"
  shows "runeWidth spaceRunes (q @ rest) = length q"
proof (cases "find (\<lambda>p. prefix p (q @ rest)) spaceRunes")
  case None
  with assms show ?thesis by (auto simp: find_None_iff)
next
  case (Some p)
  then have p: "p \<in> set spaceRunes" "prefix p (q @ rest)" by (auto simp: find_Some_iff)
  have "prefix q (q @ rest)" by simp
  with p(2) have "prefix p q \<or> prefix q p" by (rule prefix_same_cases)
  with p(1) assms spaceRunes_prefix_free have "p = q"
    by (auto simp: list_all_iff)
  with Some show ?thesis by (simp add: runeWidth_def)
qed

lemma TrimLeftRunes_spaces:
  "set ws \<subseteq> set spaceRunes \<Longrightarrow> TrimLeftRunes spaceRunes (concat ws) = []"
proof (induction ws)
  case Nil
  then show ?case by (simp add: TrimLeftRunes_Nil)
next
  case (Cons q ws)
  then have q: "q \<in> set spaceRunes" and ih: "TrimLeftRunes spaceRunes (concat ws) = []" by auto
  from q spaceRunes_nonempty have ne: "q \<noteq> []" by auto
  have w: "runeWidth spaceRunes (q @ concat ws) = length q" by (rule spaceRunes_width [OF q])
  have "TrimLeftRunes spaceRunes (q @ concat ws) = TrimLeftRunes spaceRunes (concat ws)"
    using ne w by (subst TrimLeftRunes.simps) simp
  with ih show ?case by simp
qed

lemma TrimLeftRunes_back:
  assumes "t \<noteq> []" "runeWidth spaceRunes t = 0"
  shows "TrimLeftRunes (map rev spaceRunes) (rev t) \<noteq> []"
proof
  assume "TrimLeftRunes (map rev spaceRunes) (rev t) = []"
  from TrimLeftRunes_empty [OF this] obtain ws where
    ws: "set ws \<subseteq> set (map rev spaceRunes)" "rev t = concat ws" by blast
  from assms(1) ws(2) have "ws \<noteq> []" by auto
  then obtain ws0 w where w: "ws = ws0 @ [w]" by (cases ws rule: rev_cases) auto
  with ws(1) obtain q where q: "q \<in> set spaceRunes" "w = rev q" by auto
  from ws(2) w have "rev (rev t) = rev (concat ws0 @ w)" by simp
  then have "t = q @ rev (concat ws0)" using q(2) by simp
  then have "prefix q t" by simp
  from runeWidth_prefix [OF spaceRunes_nonempty q(1) this] assms(2) show False by simp
qed

lemma TrimSpace_empty: "TrimSpace s = [] \<longleftrightarrow> whitespaceOnly s"
proof
  assume e: "TrimSpace s = []"
  let ?t = "TrimLeftRunes spaceRunes s"
  from e have right: "TrimLeftRunes (map rev spaceRunes) (rev ?t) = []"
    by (simp add: TrimSpace_def)
  have "?t = []"
  proof (rule ccontr)
    assume ne: "?t \<noteq> []"
    with TrimLeftRunes_fixed [of spaceRunes s] have "runeWidth spaceRunes ?t = 0" by simp
    from TrimLeftRunes_back [OF ne this] right show False by simp
  qed
  from TrimLeftRunes_empty [OF this] show "whitespaceOnly s"
    by (simp add: whitespaceOnly_def)
next
  assume "whitespaceOnly s"
  then obtain ws where "set ws \<subseteq> set spaceRunes" "s = concat ws"
    by (auto simp: whitespaceOnly_def)
  then have "TrimLeftRunes spaceRunes s = []" by (simp add: TrimLeftRunes_spaces)
  then show "TrimSpace s = []" by (simp add: TrimSpace_def TrimLeftRunes_Nil)
qed

lemma buildSubject_None: "buildSubject U commitType prompt = None \<longleftrightarrow> TrimSpace prompt = []"
  by (auto simp: buildSubject_def Let_def)

text \<open>
  C10. Generating a commit message panics (\<open>None\<close>) exactly for the prompts that are
  empty or made of white space only: the subject builder slices the first byte off the
  trimmed prompt. For every other prompt (one with a byte that is not part of a
  white-space rune) \<^verbatim>\<open>GenerateMessage\<close> returns a message.
\<close>

theorem GenerateMessage_panics:
  "GenerateMessage U prompt modifiedFiles = None \<longleftrightarrow> whitespaceOnly prompt"
proof -
  have "GenerateMessage U prompt modifiedFiles = None \<longleftrightarrow>
      buildSubject U (commitTypeOf keywordMatches commitTypes (ToLower U prompt)) prompt = None"
    by (simp add: GenerateMessage_def inferCommitType_spec Let_def split: option.splits)
  then show ?thesis
    by (simp add: buildSubject_None TrimSpace_empty)
qed

theorem GenerateMessage_panics_witness:
  "GenerateMessage id '' '' [''a.go''] = None \<and> whitespaceOnly '' '' \<and>
   GenerateMessage id ''x'' [] = Some (''feat: x'' @ [NL, NL] @ coAuthorTrailer) \<and>
   \<not> whitespaceOnly ''x''"
proof -
  have a: "GenerateMessage id '' '' [''a.go''] = None" by code_simp
  have b: "GenerateMessage id ''x'' [] = Some (''feat: x'' @ [NL, NL] @ coAuthorTrailer)" by code_simp
  from a b GenerateMessage_panics [of id "'' ''" "[''a.go'']"] GenerateMessage_panics [of id "''x''" "[]"]
  show ?thesis by simp
qed






end
